theory Spec2Isabelle
  imports Complex_Main "HOL-Library.Word" "HOL-Library.Log_Nat"
begin

section \<open>The presence-aware study timer (StudyPresence.tsx)\<close>

text \<open>
  The component keeps six pieces of React state (\<open>seconds\<close>, \<open>isRunning\<close>, \<open>isOnline\<close>,
  \<open>cameraEnabled\<close>, \<open>isUserPresent\<close>, \<open>cameraError\<close>) and two refs (\<open>streamRef\<close>,
  \<open>videoRef\<close>). Its handlers and effects are modelled as functions on a record of that
  state. Both copies of the component in the repository (\<open>StudyPresence.tsx\<close> and its
  near-duplicate) have the same logic; the definitions follow \<open>StudyPresence.tsx\<close> line by
  line.

  What lives outside the component but is changed by it is part of the record too:
  \<^item> \<open>media\<close> is the store of camera streams the browser has handed out. A stream handle is
    an index into it; the entry is the list of the stream's tracks, \<open>True\<close> for a live
    track and \<open>False\<close> for a stopped one.
  \<^item> \<open>effects\<close> holds the \<open>cancelled\<close> flag of every instance of the sampling effect
    that was ever started (the closure variable of lines 86 and 171), and \<open>sampling\<close> is the
    instance whose interval is currently installed.
  \<^item> \<open>pending\<close> has one entry for every \<open>getUserMedia\<close> request that is still
    unanswered: \<open>True\<close> when \<open>handleToggle\<close> made the request (it goes on with
    \<open>setIsRunning(true)\<close> after the answer), \<open>False\<close> when the "Enable camera" button
    did.
  \<^item> \<open>mounted\<close> tells whether the component is still mounted.

  JavaScript numbers are IEEE 754 doubles. \<open>seconds\<close> is a natural number: the counter
  only ever holds integers, which doubles represent exactly below \<open>2^53\<close>. In the
  luminance arithmetic every operation is rounded to the nearest double (\<open>rd\<close> below).
\<close>

subsection \<open>State\<close>

record state =
  seconds :: nat
  isRunning :: bool
  isOnline :: bool
  cameraEnabled :: bool
  isUserPresent :: "bool option"
  cameraError :: "string option"
  streamRef :: "nat option"
  videoRef :: "nat option option"
  media :: "bool list list"
  effects :: "bool list"
  sampling :: "nat option"
  pending :: "bool list"
  mounted :: bool

text \<open>
  \<open>videoRef s = None\<close>: no video element is mounted (\<open>videoRef.current\<close> is null);
  \<open>videoRef s = Some src\<close>: the element is mounted and \<open>src\<close> is its \<open>srcObject\<close>.
\<close>

text \<open>The values of \<open>useState\<close> and \<open>useRef\<close> at lines 11 to 20.\<close>

definition init :: state where
  "init = \<lparr> seconds = 0, isRunning = True, isOnline = True, cameraEnabled = False,
            isUserPresent = None, cameraError = None, streamRef = None, videoRef = None,
            media = [], effects = [], sampling = None, pending = [], mounted = True \<rparr>"

text \<open>The spec's three-valued presence sample, read off \<open>isUserPresent\<close>.\<close>

datatype presence = Present | Absent | Unknown

definition latestSample :: "state \<Rightarrow> presence" where
  "latestSample s =
     (case isUserPresent s of None \<Rightarrow> Unknown | Some True \<Rightarrow> Present | Some False \<Rightarrow> Absent)"

subsection \<open>Derived values (lines 179, 180 and 223 to 227)\<close>

definition isAutoPaused :: "state \<Rightarrow> bool" where
  "isAutoPaused s = (cameraEnabled s \<and> isUserPresent s \<noteq> Some True)"

definition isTimerActive :: "state \<Rightarrow> bool" where
  "isTimerActive s = (isRunning s \<and> \<not> isAutoPaused s)"

text \<open>
  The second label contains an en dash (U+2013); it is written here as its three UTF-8
  bytes.
\<close>

definition en_dash :: string where
  "en_dash = [CHR 0xE2, CHR 0x80, CHR 0x93]"

definition label_studying :: string where
  "label_studying = ''Studying''"

definition label_auto_paused :: string where
  "label_auto_paused =
     ''Not studying '' @ en_dash @ '' user not detected or camera covered''"

definition label_not_studying :: string where
  "label_not_studying = ''Not studying''"

definition studyStatusLabel :: "state \<Rightarrow> string" where
  "studyStatusLabel s =
     (if isTimerActive s then label_studying
      else if isAutoPaused s then label_auto_paused
      else label_not_studying)"

subsection \<open>Camera acquisition and release (lines 41 to 56, 196 to 217, 73 to 79)\<close>

text \<open>
  The outcome of \<open>handleEnableCamera\<close>'s request: the capture API is absent, the promise of
  \<open>getUserMedia\<close> is rejected, or it resolves to a fresh stream with \<open>n\<close> live tracks.
  \<open>handleEnableCamera acq\<close> is what the handler does to the state once the outcome
  \<open>acq\<close> is known; the time the request stays unanswered is part of the events below.
\<close>

datatype acquisition = NoMediaDevices | Rejected | Granted nat

definition handleEnableCamera :: "acquisition \<Rightarrow> state \<Rightarrow> state" where
  "handleEnableCamera acq s =
     (case acq of
        NoMediaDevices \<Rightarrow>
          s\<lparr>cameraError := Some ''Camera API not available in this browser.''\<rparr>
      | Rejected \<Rightarrow>
          s\<lparr>cameraError := Some ''Unable to access camera. Check permissions and try again.''\<rparr>
      | Granted n \<Rightarrow>
          s\<lparr>media := media s @ [replicate n True],
            streamRef := Some (length (media s)),
            cameraEnabled := True,
            cameraError := None\<rparr>)"

text \<open>\<open>stream.getTracks().forEach((t) => t.stop())\<close> on the stream with handle \<open>h\<close>.\<close>

definition stopTracks :: "nat \<Rightarrow> bool list list \<Rightarrow> bool list list" where
  "stopTracks h m = (if h < length m then m[h := map (\<lambda>t. False) (m ! h)] else m)"

text \<open>The running-to-stopped branch of \<open>handleToggle\<close> (lines 207 to 216).\<close>

definition handleToggle_stop :: "state \<Rightarrow> state" where
  "handleToggle_stop s =
     (let s1 = s\<lparr>isRunning := False\<rparr>;
          s2 = (case streamRef s1 of
                  Some h \<Rightarrow> s1\<lparr>media := stopTracks h (media s1), streamRef := None\<rparr>
                | None \<Rightarrow> s1);
          s3 = (case videoRef s2 of
                  Some src \<Rightarrow> s2\<lparr>videoRef := Some None\<rparr>
                | None \<Rightarrow> s2)
      in s3\<lparr>cameraEnabled := False, isUserPresent := None\<rparr>)"

definition handleToggle :: "acquisition \<Rightarrow> state \<Rightarrow> state" where
  "handleToggle acq s =
     (if \<not> isRunning s then
        (let s1 = (if \<not> cameraEnabled s then handleEnableCamera acq s else s)
         in s1\<lparr>isRunning := True\<rparr>)
      else handleToggle_stop s)"

definition handleReset :: "state \<Rightarrow> state" where
  "handleReset s = s\<lparr>seconds := 0\<rparr>"

text \<open>
  One firing of the one-second interval of lines 182 to 191. The interval is installed only
  while \<open>isTimerActive\<close> holds; \<open>onSecondsTick\<close> belongs to the host and does not touch
  this state.
\<close>

definition timerTick :: "state \<Rightarrow> state" where
  "timerTick s = (if isTimerActive s then s\<lparr>seconds := seconds s + 1\<rparr> else s)"

subsection \<open>Double-precision arithmetic\<close>

text \<open>
  A finite double is a rational number. The result of an arithmetic operation on doubles is
  the exact result rounded to the nearest double, ties to the even significand:
  \<open>expo x\<close> is the binary exponent of a positive \<open>x\<close> (\<open>2^e \<le> x < 2^(e+1)\<close>),
  the doubles near \<open>x\<close> are the multiples of \<open>2^(e - 52)\<close> (of \<open>2^(-1074)\<close> in the
  subnormal range), and \<open>rne\<close> rounds to the nearest integer, ties to even.
  Overflow to infinity needs a magnitude of \<open>2^1024\<close>, which sums over fewer than
  \<open>2^1000\<close> bytes do not reach; it is not modelled.
\<close>

definition expo :: "rat \<Rightarrow> int" where
  "expo x =
     (case quotient_of x of (a, b) \<Rightarrow>
        (let e = bitlen a - bitlen b
         in if 2 powi e \<le> x then e else e - 1))"

definition rne :: "rat \<Rightarrow> int" where
  "rne x =
     (let f = \<lfloor>x\<rfloor>; d = x - of_int f
      in if d < 1 / 2 then f else if 1 / 2 < d then f + 1 else if even f then f else f + 1)"

definition rd :: "rat \<Rightarrow> rat" where
  "rd x =
     (if x = 0 then 0
      else (let q = 2 powi (max (expo \<bar>x\<bar>) (- 1022) - 52)
            in sgn x * of_int (rne (\<bar>x\<bar> / q)) * q))"

subsection \<open>Covered-camera analysis (lines 109 to 137)\<close>

type_synonym byte = "8 word"

datatype error = DetectError | FrameError

text \<open>
  Line 126: \<open>(r + g + b) / 3\<close>. The sum of three bytes is exact, the division is
  rounded.
\<close>

definition lum_of :: "byte \<Rightarrow> byte \<Rightarrow> byte \<Rightarrow> rat" where
  "lum_of r g b = rd (rat_of_nat (unat r + unat g + unat b) / 3)"

text \<open>
  The loop of lines 122 to 129 over the flat RGBA array, four bytes at a time, with the
  accumulators \<open>sum\<close> (here \<open>sumL\<close>) and \<open>sumSq\<close>; the product and both additions
  are rounded. An \<open>ImageData\<close> array always has four bytes per pixel; on any other array
  the loop would read \<open>undefined\<close> past the end and the sums would become NaN, which is
  the value \<open>None\<close> here (the alpha byte is never read, so three trailing bytes still make
  a pixel).
\<close>

fun lum_loop :: "byte list \<Rightarrow> rat \<times> rat \<Rightarrow> (rat \<times> rat) option" where
  "lum_loop [] acc = Some acc"
| "lum_loop (r # g # b # a # rest) (sumL, sumSq) =
     (let lum = lum_of r g b
      in lum_loop rest (rd (sumL + lum), rd (sumSq + rd (lum * lum))))"
| "lum_loop [r, g, b] (sumL, sumSq) =
     (let lum = lum_of r g b in Some (rd (sumL + lum), rd (sumSq + rd (lum * lum))))"
| "lum_loop _ acc = None"

text \<open>
  Lines 118 to 137, each division, product and difference rounded. A comparison with NaN
  is false in JavaScript, so a NaN sum, and the \<open>0 / 0\<close> of an empty array, give
  \<open>cameraCovered = false\<close>.
\<close>

definition cameraCovered :: "byte list \<Rightarrow> bool" where
  "cameraCovered data =
     (case lum_loop data (0, 0) of
        None \<Rightarrow> False
      | Some (sumL, sumSq) \<Rightarrow>
          (let pixels = rd (rat_of_nat (length data) / 4) in
           if pixels = 0 then False
           else
             (let avg = rd (sumL / pixels);
                  variance = rd (rd (sumSq / pixels) - rd (avg * avg));
                  veryDark = (avg < 25);
                  veryFlat = (variance < 50)
              in veryDark \<or> veryFlat)))"

subsection \<open>The frame analysis in the spec's words\<close>










subsection \<open>One presence check (lines 96 to 163)\<close>

text \<open>
  The constants of one instance of the sampling effect: whether \<open>window.FaceDetector\<close>
  exists (\<open>detector\<close> is then non-null) and whether the offscreen canvas gave a 2d context.
\<close>

record sampler =
  detector :: bool
  ctx :: bool

text \<open>
  What the browser supplies to one call of \<open>checkPresence\<close>: whether \<open>videoRef.current\<close>
  was non-null when line 97 read it, the outcome of \<open>await detector.detect(video)\<close> (a
  rejection, or the number of faces), the video element's \<open>readyState\<close>, \<open>videoWidth\<close>
  and \<open>videoHeight\<close>, and the outcome of \<open>drawImage\<close> followed by \<open>getImageData\<close> (an
  exception, or the RGBA bytes).
\<close>

record sample =
  video :: bool
  detect :: "error + nat"
  readyState :: nat
  videoWidth :: nat
  videoHeight :: nat
  imageData :: "error + byte list"

text \<open>The decision of lines 140 to 152.\<close>

definition present_of :: "bool \<Rightarrow> bool \<Rightarrow> nat \<Rightarrow> bool" where
  "present_of covered det facesCount =
     (if covered then False else if det then 0 < facesCount else True)"

text \<open>
  The body of the \<open>try\<close> block (lines 101 to 156). \<open>Inl e\<close>: the exception \<open>e\<close> was
  thrown; \<open>Inr None\<close>: the block ended without calling \<open>setIsUserPresent\<close>;
  \<open>Inr (Some p)\<close>: it called \<open>setIsUserPresent(p)\<close>. \<open>cancelled\<close> is the value of the
  effect instance's flag when line 139 reads it, after the \<open>await\<close>.
\<close>

definition try_block :: "sampler \<Rightarrow> sample \<Rightarrow> bool \<Rightarrow> error + bool option" where
  "try_block eff inp cancelled =
     (case (if detector eff then detect inp else Inr 0) of
        Inl e \<Rightarrow> Inl e
      | Inr facesCount \<Rightarrow>
          if 2 \<le> readyState inp \<and> 0 < videoWidth inp \<and> 0 < videoHeight inp then
            (case imageData inp of
               Inl e \<Rightarrow> Inl e
             | Inr data \<Rightarrow>
                 if \<not> cancelled
                 then Inr (Some (present_of (cameraCovered data) (detector eff) facesCount))
                 else Inr None)
          else Inr None)"

text \<open>
  \<open>checkPresence\<close> with its \<open>catch\<close> (lines 157 to 162). The result is \<open>Inl e\<close> if the
  exception \<open>e\<close> leaves the function, and the new state otherwise.
\<close>

definition checkPresence :: "sampler \<Rightarrow> sample \<Rightarrow> bool \<Rightarrow> state \<Rightarrow> error + state" where
  "checkPresence eff inp cancelled s =
     (if video inp \<and> ctx eff then
        (case try_block eff inp cancelled of
           Inr None \<Rightarrow> Inr s
         | Inr (Some p) \<Rightarrow> Inr (s\<lparr>isUserPresent := Some p\<rparr>)
         | Inl e \<Rightarrow>
             if \<not> cancelled then Inr (s\<lparr>isUserPresent := Some False\<rparr>) else Inr s)
      else Inr s)"

text \<open>
  The periodic loop (lines 166 and 168): one call per tick, on a live instance
  (\<open>cancelled\<close> is false). The model lets an exception that leaves \<open>checkPresence\<close> end
  the loop, so that "the loop goes on" is a statement about \<open>checkPresence\<close> and not an
  assumption.
\<close>

fun sampling_loop :: "sampler \<Rightarrow> sample list \<Rightarrow> state \<Rightarrow> error + state" where
  "sampling_loop eff [] s = Inr s"
| "sampling_loop eff (t # ts) s =
     (case checkPresence eff t False s of
        Inl e \<Rightarrow> Inl e
      | Inr s' \<Rightarrow> sampling_loop eff ts s')"

subsection \<open>Rendering, effects and events\<close>

text \<open>
  After a handler has run, React renders and runs the effects whose dependencies changed:
  \<^item> the video element exists exactly while \<open>cameraEnabled\<close> holds (lines 307 to 319); when
    it is mounted, the effect of lines 59 to 70 sets its \<open>srcObject\<close> to \<open>streamRef.current\<close>;
  \<^item> the sampling effect (lines 84 to 174) has the dependencies \<open>cameraEnabled\<close> and
    \<open>isRunning\<close>: a live instance is cleaned up (its flag set, its interval cleared) as soon
    as one of them is false, and a new instance starts when both hold and the video element
    exists.
\<close>

definition render :: "state \<Rightarrow> state" where
  "render s =
     (let s1 = (if cameraEnabled s then
                  (case videoRef s of
                     None \<Rightarrow> s\<lparr>videoRef := Some (streamRef s)\<rparr>
                   | Some src \<Rightarrow> s)
                else s\<lparr>videoRef := None\<rparr>)
      in case sampling s1 of
           Some i \<Rightarrow>
             if cameraEnabled s1 \<and> isRunning s1 then s1
             else s1\<lparr>effects := (effects s1)[i := True], sampling := None\<rparr>
         | None \<Rightarrow>
             if cameraEnabled s1 \<and> isRunning s1 \<and> videoRef s1 \<noteq> None
             then s1\<lparr>effects := effects s1 @ [False], sampling := Some (length (effects s1))\<rparr>
             else s1)"

text \<open>
  Unmounting runs every cleanup: lines 74 to 78 stop the tracks of \<open>streamRef.current\<close>,
  lines 170 to 173 cancel the sampling effect, and the video element goes away.
\<close>

definition unmount :: "state \<Rightarrow> state" where
  "unmount s =
     (let s1 = (case streamRef s of
                  Some h \<Rightarrow> s\<lparr>media := stopTracks h (media s)\<rparr>
                | None \<Rightarrow> s);
          s2 = (case sampling s1 of
                  Some i \<Rightarrow> s1\<lparr>effects := (effects s1)[i := True], sampling := None\<rparr>
                | None \<Rightarrow> s1)
      in s2\<lparr>videoRef := None, mounted := False\<rparr>)"

text \<open>
  A call of \<open>checkPresence\<close> that belongs to effect instance \<open>i\<close> and reaches its state
  update now: it reads the flag of its own instance.
\<close>

definition apply_sample :: "nat \<Rightarrow> sampler \<Rightarrow> sample \<Rightarrow> state \<Rightarrow> state" where
  "apply_sample i eff inp s =
     (if i < length (effects s) then
        (case checkPresence eff inp (effects s ! i) s of Inr s' \<Rightarrow> s' | Inl e \<Rightarrow> s)
      else s)"

text \<open>
  The answer to the pending request \<open>k\<close>, lines 49 to 55 after the \<open>await\<close> of line 48.
  While the component is mounted the handler goes on as usual, and \<open>handleToggle\<close>, if it
  made the request, sets \<open>isRunning\<close> (line 202). After the unmount the state setters do
  nothing, but a granted stream exists and line 49 still stores it in the ref. A missing
  capture API is found at line 42, before any request is made, so it is never the answer
  to a pending request.
\<close>

definition settle :: "nat \<Rightarrow> acquisition \<Rightarrow> state \<Rightarrow> state" where
  "settle k acq s =
     (if k < length (pending s) \<and> acq \<noteq> NoMediaDevices then
        (let byToggle = pending s ! k;
             s0 = s\<lparr>pending := take k (pending s) @ drop (Suc k) (pending s)\<rparr>
         in if mounted s0 then
              (let s1 = handleEnableCamera acq s0
               in render (if byToggle then s1\<lparr>isRunning := True\<rparr> else s1))
            else
              (case acq of
                 Granted n \<Rightarrow>
                   s0\<lparr>media := media s0 @ [replicate n True],
                      streamRef := Some (length (media s0))\<rparr>
               | _ \<Rightarrow> s0))
      else s)"

text \<open>
  Everything that can happen to the component. The buttons exist only while it is mounted,
  and the "Enable camera" button only while \<open>cameraEnabled\<close> is false (lines 322 to 330).
  \<open>Toggle acq\<close> and \<open>EnableCamera acq\<close> are the clicks whose camera request, if one is
  made, is answered with \<open>acq\<close> before anything else happens. \<open>ClickEnable\<close> and
  \<open>ClickStart\<close> are the same two clicks with the request left pending (the Start click
  makes a request only when the timer is stopped and the camera is disabled), and
  \<open>Settle k acq\<close> is the moment the pending request \<open>k\<close> is answered, at any later time.
  A sample can complete at any time, also after its effect instance was cleaned up or the
  component was unmounted.
\<close>

datatype event =
    Toggle acquisition
  | EnableCamera acquisition
  | ClickEnable
  | ClickStart
  | Settle nat acquisition
  | Reset
  | TimerTick
  | Connectivity bool
  | Sample nat sampler sample
  | Unmount

definition step :: "event \<Rightarrow> state \<Rightarrow> state" where
  "step e s =
     (case e of
        Sample i eff inp \<Rightarrow> apply_sample i eff inp s
      | Toggle acq \<Rightarrow> if mounted s then render (handleToggle acq s) else s
      | EnableCamera acq \<Rightarrow>
          if mounted s \<and> \<not> cameraEnabled s then render (handleEnableCamera acq s) else s
      | ClickEnable \<Rightarrow>
          if mounted s \<and> \<not> cameraEnabled s then s\<lparr>pending := pending s @ [False]\<rparr> else s
      | ClickStart \<Rightarrow>
          if mounted s \<and> \<not> isRunning s \<and> \<not> cameraEnabled s
          then s\<lparr>pending := pending s @ [True]\<rparr> else s
      | Settle k acq \<Rightarrow> settle k acq s
      | Reset \<Rightarrow> if mounted s then handleReset s else s
      | TimerTick \<Rightarrow> if mounted s then timerTick s else s
      | Connectivity b \<Rightarrow> if mounted s then s\<lparr>isOnline := b\<rparr> else s
      | Unmount \<Rightarrow> if mounted s then unmount s else s)"

fun run :: "event list \<Rightarrow> state \<Rightarrow> state" where
  "run [] s = s"
| "run (e # es) s = run es (step e s)"

inductive reachable :: "state \<Rightarrow> bool" where
  reachable_init: "reachable init"
| reachable_step: "reachable s \<Longrightarrow> reachable (step e s)"

subsection \<open>Hardware tracks and the invariant of reachable states\<close>

text \<open>A stream is stopped when none of its tracks is live.\<close>

definition stopped :: "bool list \<Rightarrow> bool" where
  "stopped ts = (True \<notin> set ts)"

definition noLiveTrack :: "bool list list \<Rightarrow> bool" where
  "noLiveTrack m = list_all stopped m"

text \<open>
  \<open>sampling_inv\<close>: an instance of the sampling effect is live only while the component is
  mounted with the camera enabled and a run requested, and its flag exists.
\<close>

definition sampling_inv :: "state \<Rightarrow> bool" where
  "sampling_inv s =
     (\<forall>i. sampling s = Some i \<longrightarrow>
            i < length (effects s) \<and> mounted s \<and> cameraEnabled s \<and> isRunning s)"

subsection \<open>Concrete inputs\<close>

text \<open>
  The state after "Enable camera" was granted a stream with two tracks, right after mount:
  the timer's run intent is still the initial \<open>true\<close>, so the sampling effect starts.
\<close>

definition camera_on :: state where
  "camera_on = step (EnableCamera (Granted 2)) init"

text \<open>
  Two clicks on "Enable camera" while the first request is still unanswered, and then both
  requests granted, one track each. In \<open>late_state\<close> the component is unmounted between
  the two grants.
\<close>

definition overlap_state :: state where
  "overlap_state =
     run [ClickEnable, ClickEnable, Settle 0 (Granted 1), Settle 0 (Granted 1)] init"

definition late_state :: state where
  "late_state =
     run [ClickEnable, ClickEnable, Settle 0 (Granted 1), Unmount, Settle 0 (Granted 1)] init"

definition sampler0 :: sampler where
  "sampler0 = \<lparr> detector = True, ctx = True \<rparr>"

definition sampler_plain :: sampler where
  "sampler_plain = \<lparr> detector = False, ctx = True \<rparr>"

text \<open>
  A call on a video element that has no data yet (\<open>readyState\<close> 0, no dimensions), on
  which the face detector rejects.
\<close>

definition not_ready_sample :: sample where
  "not_ready_sample = \<lparr> video = True, detect = Inl DetectError, readyState = 0,
     videoWidth = 0, videoHeight = 0, imageData = Inl FrameError \<rparr>"

text \<open>Two frames of two pixels: one dark and one bright pixel, and two black pixels.\<close>

definition checker_frame :: "byte list" where
  "checker_frame = [1, 1, 1, 255, 255, 255, 255, 255]"

definition black_frame :: "byte list" where
  "black_frame = [0, 0, 0, 255, 0, 0, 0, 255]"


definition ready_sample :: "nat \<Rightarrow> byte list \<Rightarrow> sample" where
  "ready_sample n data = \<lparr> video = True, detect = Inr n, readyState = 4,
     videoWidth = 640, videoHeight = 480, imageData = Inr data \<rparr>"

text \<open>A call on a decodable frame whose pixels cannot be read.\<close>

definition broken_sample :: sample where
  "broken_sample = \<lparr> video = True, detect = Inr 1, readyState = 4,
     videoWidth = 640, videoHeight = 480, imageData = Inl FrameError \<rparr>"

section \<open>Properties\<close>

subsection \<open>Auxiliary facts: fields after each operation\<close>

lemma labels_distinct:
  "label_studying \<noteq> label_auto_paused" "label_studying \<noteq> label_not_studying"
  "label_auto_paused \<noteq> label_not_studying"
  by (simp_all add: label_studying_def label_auto_paused_def label_not_studying_def)

lemma timerTick_seconds:
  "seconds (timerTick s) = (if isTimerActive s then seconds s + 1 else seconds s)"
  by (simp add: timerTick_def)

lemma render_fields [simp]:
  "seconds (render s) = seconds s" "isRunning (render s) = isRunning s"
  "cameraEnabled (render s) = cameraEnabled s" "isUserPresent (render s) = isUserPresent s"
  "cameraError (render s) = cameraError s" "streamRef (render s) = streamRef s"
  "media (render s) = media s" "mounted (render s) = mounted s"
  "isOnline (render s) = isOnline s"
  by (simp_all add: render_def Let_def split: option.splits)

lemma render_sampling:
  "sampling (render s) =
     (case sampling s of
        Some i \<Rightarrow> if cameraEnabled s \<and> isRunning s then Some i else None
      | None \<Rightarrow> if cameraEnabled s \<and> isRunning s then Some (length (effects s)) else None)"
  by (simp add: render_def Let_def split: option.splits)

lemma render_length_effects:
  "length (effects (render s)) =
     (case sampling s of
        Some i \<Rightarrow> length (effects s)
      | None \<Rightarrow> if cameraEnabled s \<and> isRunning s then Suc (length (effects s))
                 else length (effects s))"
  by (simp add: render_def Let_def split: option.splits)

lemma stop_fields [simp]:
  "isRunning (handleToggle_stop s) = False"
  "cameraEnabled (handleToggle_stop s) = False"
  "isUserPresent (handleToggle_stop s) = None"
  "streamRef (handleToggle_stop s) = None"
  "media (handleToggle_stop s) =
     (case streamRef s of Some h \<Rightarrow> stopTracks h (media s) | None \<Rightarrow> media s)"
  "videoRef (handleToggle_stop s) =
     (case videoRef s of Some src \<Rightarrow> Some None | None \<Rightarrow> None)"
  "sampling (handleToggle_stop s) = sampling s"
  "effects (handleToggle_stop s) = effects s"
  "mounted (handleToggle_stop s) = mounted s"
  "seconds (handleToggle_stop s) = seconds s"
  "cameraError (handleToggle_stop s) = cameraError s"
  "isOnline (handleToggle_stop s) = isOnline s"
  by (simp_all add: handleToggle_stop_def Let_def split: option.splits)

lemma enable_fields [simp]:
  "isRunning (handleEnableCamera acq s) = isRunning s"
  "cameraEnabled (handleEnableCamera acq s) =
     (case acq of Granted n \<Rightarrow> True | _ \<Rightarrow> cameraEnabled s)"
  "isUserPresent (handleEnableCamera acq s) = isUserPresent s"
  "streamRef (handleEnableCamera acq s) =
     (case acq of Granted n \<Rightarrow> Some (length (media s)) | _ \<Rightarrow> streamRef s)"
  "media (handleEnableCamera acq s) =
     (case acq of Granted n \<Rightarrow> media s @ [replicate n True] | _ \<Rightarrow> media s)"
  "videoRef (handleEnableCamera acq s) = videoRef s"
  "sampling (handleEnableCamera acq s) = sampling s"
  "effects (handleEnableCamera acq s) = effects s"
  "mounted (handleEnableCamera acq s) = mounted s"
  "seconds (handleEnableCamera acq s) = seconds s"
  by (simp_all add: handleEnableCamera_def split: acquisition.splits)

lemma toggle_fields [simp]:
  "sampling (handleToggle acq s) = sampling s"
  "effects (handleToggle acq s) = effects s"
  "mounted (handleToggle acq s) = mounted s"
  "seconds (handleToggle acq s) = seconds s"
  by (simp_all add: handleToggle_def Let_def)

lemma unmount_seconds [simp]: "seconds (unmount s) = seconds s"
  by (simp add: unmount_def Let_def split: option.splits)

subsection \<open>Auxiliary facts: one presence check\<close>

lemma checkPresence_cases:
  "checkPresence eff inp c s = Inr s
   \<or> (\<exists>p. checkPresence eff inp c s = Inr (s\<lparr>isUserPresent := Some p\<rparr>))"
  by (auto simp: checkPresence_def split: sum.splits option.splits)

lemma checkPresence_total: "checkPresence eff inp c s \<noteq> Inl e"
  using checkPresence_cases [of eff inp c s] by auto

lemma checkPresence_cancelled: "checkPresence eff inp True s = Inr s"
  by (simp add: checkPresence_def try_block_def split: sum.splits option.splits)

lemma checkPresence_catch:
  "video inp \<Longrightarrow> ctx eff \<Longrightarrow> try_block eff inp False = Inl e \<Longrightarrow>
     checkPresence eff inp False s = Inr (s\<lparr>isUserPresent := Some False\<rparr>)"
  by (simp add: checkPresence_def)

lemma try_block_throws:
  "detector eff \<and> detect inp = Inl e \<Longrightarrow> try_block eff inp c = Inl e"
  "(detector eff \<longrightarrow> detect inp = Inr n) \<and> 2 \<le> readyState inp \<and> 0 < videoWidth inp
     \<and> 0 < videoHeight inp \<and> imageData inp = Inl e \<Longrightarrow> try_block eff inp c = Inl e"
  by (auto simp: try_block_def)

lemma not_ready_unchanged:
  assumes "\<not> (2 \<le> readyState inp \<and> 0 < videoWidth inp \<and> 0 < videoHeight inp)"
    and "detector eff \<Longrightarrow> detect inp = Inr n"
  shows "checkPresence eff inp c s = Inr s"
  using assms by (auto simp: checkPresence_def try_block_def split: sum.splits option.splits)

lemma not_ready_detector_failure:
  assumes "video inp" "ctx eff" "detector eff" "detect inp = Inl e"
  shows "checkPresence eff inp False s = Inr (s\<lparr>isUserPresent := Some False\<rparr>)"
  using assms by (simp add: checkPresence_def try_block_def)

lemma sampling_loop_total: "sampling_loop eff ts s \<noteq> Inl e"
  by (induction ts arbitrary: s) (auto simp: checkPresence_total split: sum.splits)

lemma apply_sample_cases:
  "apply_sample i eff inp s = s
   \<or> (\<exists>p. apply_sample i eff inp s = s\<lparr>isUserPresent := Some p\<rparr>)"
  using checkPresence_cases [of eff inp "effects s ! i" s]
  by (auto simp: apply_sample_def)

lemma apply_sample_fields [simp]:
  "seconds (apply_sample i eff inp s) = seconds s"
  "isRunning (apply_sample i eff inp s) = isRunning s"
  "cameraEnabled (apply_sample i eff inp s) = cameraEnabled s"
  "streamRef (apply_sample i eff inp s) = streamRef s"
  "videoRef (apply_sample i eff inp s) = videoRef s"
  "media (apply_sample i eff inp s) = media s"
  "effects (apply_sample i eff inp s) = effects s"
  "sampling (apply_sample i eff inp s) = sampling s"
  "mounted (apply_sample i eff inp s) = mounted s"
  using apply_sample_cases [of i eff inp s] by auto

lemma apply_sample_cancelled:
  "i < length (effects s) \<Longrightarrow> effects s ! i \<Longrightarrow> apply_sample i eff inp s = s"
  by (simp add: apply_sample_def checkPresence_cancelled)

subsection \<open>Auxiliary facts: pending camera requests\<close>

lemma settle_fields [simp]:
  "seconds (settle k acq s) = seconds s"
  "mounted (settle k acq s) = mounted s"
  by (simp_all add: settle_def Let_def split: acquisition.splits)

lemma settle_unmounted_fields:
  "\<not> mounted s \<Longrightarrow> sampling (settle k acq s) = sampling s"
  "\<not> mounted s \<Longrightarrow> effects (settle k acq s) = effects s"
  by (simp_all add: settle_def Let_def split: acquisition.splits)

text \<open>
  While the component is mounted, an answered request is the handler's step on the state
  without that request, then line 202 if \<open>handleToggle\<close> is waiting, then a render.
\<close>

lemma settle_mounted:
  assumes "mounted s" and "k < length (pending s)" and "acq \<noteq> NoMediaDevices"
  shows "\<exists>s'. settle k acq s = render s' \<and> sampling s' = sampling s
    \<and> effects s' = effects s \<and> mounted s'
    \<and> (cameraEnabled s \<longrightarrow> cameraEnabled s') \<and> (isRunning s \<longrightarrow> isRunning s')"
proof (cases "pending s ! k")
  case True
  with assms show ?thesis
    by (intro exI [of _ "(handleEnableCamera acq
        (s\<lparr>pending := take k (pending s) @ drop (Suc k) (pending s)\<rparr>))\<lparr>isRunning := True\<rparr>"])
      (simp add: settle_def Let_def split: acquisition.splits)
next
  case False
  with assms show ?thesis
    by (intro exI [of _ "handleEnableCamera acq
        (s\<lparr>pending := take k (pending s) @ drop (Suc k) (pending s)\<rparr>)"])
      (simp add: settle_def Let_def split: acquisition.splits)
qed

lemma settle_idle:
  "\<not> (k < length (pending s) \<and> acq \<noteq> NoMediaDevices) \<Longrightarrow> settle k acq s = s"
  by (simp only: settle_def if_not_P if_False)

subsection \<open>Auxiliary facts: the counter over events\<close>

lemma step_seconds: "e \<noteq> Reset \<Longrightarrow> seconds s \<le> seconds (step e s)"
  by (cases e) (simp_all add: step_def timerTick_seconds)

lemma run_seconds: "Reset \<notin> set es \<Longrightarrow> seconds s \<le> seconds (run es s)"
proof (induction es arbitrary: s)
  case Nil
  then show ?case by simp
next
  case (Cons e es)
  then have "seconds s \<le> seconds (step e s)"
    using step_seconds [of e s] by auto
  also have "\<dots> \<le> seconds (run es (step e s))"
    using Cons by simp
  finally show ?case by simp
qed

lemma run_ticks:
  "seconds (run (replicate n TimerTick) s) =
     (if mounted s \<and> isTimerActive s then seconds s + n else seconds s)"
  by (induction n arbitrary: s)
    (auto simp: step_def timerTick_def isTimerActive_def isAutoPaused_def)

lemma reachable_run: "reachable s \<Longrightarrow> reachable (run es s)"
  by (induction es arbitrary: s) (simp_all add: reachable_step)

subsection \<open>Auxiliary facts: cancellation flags only ever get set\<close>

lemma set_flag_nth: "i < length xs \<Longrightarrow> xs ! i \<Longrightarrow> xs[j := True] ! i"
  by (cases "i = j") simp_all

lemma render_effects:
  "i < length (effects s) \<Longrightarrow> effects s ! i \<Longrightarrow>
     i < length (effects (render s)) \<and> effects (render s) ! i"
  by (auto simp: render_def Let_def nth_append set_flag_nth split: option.splits)

lemma unmount_effects:
  "i < length (effects s) \<Longrightarrow> effects s ! i \<Longrightarrow>
     i < length (effects (unmount s)) \<and> effects (unmount s) ! i"
  by (auto simp: unmount_def Let_def set_flag_nth split: option.splits)

lemma settle_effects:
  assumes "i < length (effects s)" and "effects s ! i"
  shows "i < length (effects (settle k acq s)) \<and> effects (settle k acq s) ! i"
proof (cases "k < length (pending s) \<and> acq \<noteq> NoMediaDevices")
  case False
  with assms show ?thesis by (simp add: settle_idle)
next
  case True
  show ?thesis
  proof (cases "mounted s")
    case False
    with assms show ?thesis by (simp add: settle_unmounted_fields)
  next
    case mounted: True
    from settle_mounted [OF mounted] True
    obtain s' where s': "settle k acq s = render s'" "effects s' = effects s"
      by blast
    from assms have "i < length (effects s')" "effects s' ! i"
      by (simp_all add: s')
    then show ?thesis
      unfolding s'(1) by (rule render_effects)
  qed
qed

lemma step_effects:
  "i < length (effects s) \<Longrightarrow> effects s ! i \<Longrightarrow>
     i < length (effects (step e s)) \<and> effects (step e s) ! i"
  by (cases e)
    (auto simp: step_def render_effects unmount_effects settle_effects handleReset_def
      timerTick_def)

lemma run_effects:
  "i < length (effects s) \<Longrightarrow> effects s ! i \<Longrightarrow>
     i < length (effects (run es s)) \<and> effects (run es s) ! i"
proof (induction es arbitrary: s)
  case Nil
  then show ?case by simp
next
  case (Cons e es)
  from Cons.prems have "i < length (effects (step e s)) \<and> effects (step e s) ! i"
    by (rule step_effects)
  then show ?case using Cons.IH [of "step e s"] by simp
qed

lemma run_cancelled:
  "i < length (effects s) \<Longrightarrow> effects s ! i \<Longrightarrow>
     step (Sample i eff inp) (run es s) = run es s"
  using run_effects [of i s es] by (simp add: step_def apply_sample_cancelled)

subsection \<open>Auxiliary facts: the invariant and the teardown\<close>

lemma stopped_map_False [simp]: "stopped (map (\<lambda>t. False) ts)"
  by (auto simp: stopped_def)

lemma length_stopTracks [simp]: "length (stopTracks h m) = length m"
  by (simp add: stopTracks_def)

lemma nth_stopTracks:
  "k < length m \<Longrightarrow>
     stopTracks h m ! k = (if k = h then map (\<lambda>t. False) (m ! h) else m ! k)"
  by (simp add: stopTracks_def)

lemma sampling_inv_init: "sampling_inv init"
  by (simp add: sampling_inv_def init_def)

lemma sampling_inv_render:
  "mounted s \<Longrightarrow> sampling_inv s \<Longrightarrow> sampling s = sampling s' \<Longrightarrow> effects s = effects s'
    \<Longrightarrow> mounted s' \<Longrightarrow> sampling_inv (render s')"
  by (auto simp: sampling_inv_def render_sampling render_length_effects split: option.splits)

lemma sampling_inv_unmount: "sampling_inv (unmount s)"
  by (auto simp: sampling_inv_def unmount_def Let_def split: option.splits)

lemma sampling_inv_settle:
  assumes "sampling_inv s"
  shows "sampling_inv (settle k acq s)"
proof (cases "k < length (pending s) \<and> acq \<noteq> NoMediaDevices")
  case False
  with assms show ?thesis by (simp add: settle_idle)
next
  case True
  show ?thesis
  proof (cases "mounted s")
    case False
    with assms show ?thesis
      by (simp add: sampling_inv_def settle_unmounted_fields)
  next
    case mounted: True
    from settle_mounted [OF mounted] True
    obtain s' where s': "settle k acq s = render s'" "sampling s' = sampling s"
      "effects s' = effects s" "mounted s'"
      by blast
    have "sampling_inv (render s')"
      using mounted assms by (rule sampling_inv_render) (simp_all add: s')
    then show ?thesis
      by (simp add: s'(1))
  qed
qed

lemma sampling_inv_step: "sampling_inv s \<Longrightarrow> sampling_inv (step e s)"
proof -
  assume inv: "sampling_inv s"
  show ?thesis
  proof (cases e)
    case (Toggle acq)
    show ?thesis
    proof (cases "mounted s")
      case True
      have "sampling_inv (render (handleToggle acq s))"
        using True inv by (rule sampling_inv_render) (simp_all add: True)
      with Toggle True show ?thesis by (simp add: step_def)
    next
      case False
      with Toggle inv show ?thesis by (simp add: step_def)
    qed
  next
    case (EnableCamera acq)
    show ?thesis
    proof (cases "mounted s \<and> \<not> cameraEnabled s")
      case True
      then have m: "mounted s" by simp
      have "sampling_inv (render (handleEnableCamera acq s))"
        using m inv by (rule sampling_inv_render) (simp_all add: m)
      with EnableCamera True show ?thesis by (simp add: step_def)
    next
      case False
      with EnableCamera inv show ?thesis by (auto simp: step_def)
    qed
  next
    case ClickEnable
    with inv show ?thesis by (auto simp: step_def sampling_inv_def)
  next
    case ClickStart
    with inv show ?thesis by (auto simp: step_def sampling_inv_def)
  next
    case (Settle k acq)
    with inv show ?thesis by (simp add: step_def sampling_inv_settle)
  next
    case Reset
    with inv show ?thesis by (auto simp: step_def handleReset_def sampling_inv_def)
  next
    case TimerTick
    with inv show ?thesis by (auto simp: step_def timerTick_def sampling_inv_def)
  next
    case (Connectivity b)
    with inv show ?thesis by (auto simp: step_def sampling_inv_def)
  next
    case (Sample i eff inp)
    with inv show ?thesis by (auto simp: step_def sampling_inv_def)
  next
    case Unmount
    with inv show ?thesis by (simp add: step_def sampling_inv_unmount)
  qed
qed

lemma reachable_sampling_inv: "reachable s \<Longrightarrow> sampling_inv s"
  by (induction rule: reachable.induct) (simp_all add: sampling_inv_init sampling_inv_step)

text \<open>
  \<open>handleEnableCamera\<close> stores the new handle without stopping a stream that
  \<open>streamRef\<close> already holds.
\<close>

lemma handleEnableCamera_overwrites:
  "streamRef s = Some h \<Longrightarrow> h < length (media s) \<Longrightarrow>
     streamRef (handleEnableCamera (Granted n) s) = Some (length (media s))
     \<and> media (handleEnableCamera (Granted n) s) ! h = media s ! h"
  by (simp add: nth_append)

text \<open>Both teardown paths stop every track of the stream that \<open>streamRef\<close> holds.\<close>

lemma teardown_stops_held:
  "streamRef t = Some h \<Longrightarrow> h < length (media t) \<Longrightarrow>
     stopped (media (unmount t) ! h) \<and> stopped (media (handleToggle_stop t) ! h)"
  by (simp add: unmount_def Let_def nth_stopTracks split: option.splits)

text \<open>Only unmounting and the Start/Stop button end a live sampling effect.\<close>

lemma settle_keeps_sampling:
  assumes "sampling s = Some i" and "mounted s" and "cameraEnabled s" and "isRunning s"
  shows "sampling (settle k acq s) = Some i"
proof (cases "k < length (pending s) \<and> acq \<noteq> NoMediaDevices")
  case False
  with assms show ?thesis by (simp add: settle_idle)
next
  case True
  from settle_mounted [OF assms(2)] True
  obtain s' where s': "settle k acq s = render s'" "sampling s' = sampling s"
    "cameraEnabled s \<longrightarrow> cameraEnabled s'" "isRunning s \<longrightarrow> isRunning s'"
    by blast
  with assms show ?thesis
    by (simp add: render_sampling)
qed

lemma teardown_events:
  assumes "sampling_inv s" and "sampling s = Some i" and "sampling (step e s) \<noteq> Some i"
  shows "e = Unmount \<or> (\<exists>acq. e = Toggle acq)"
proof -
  from assms(1,2) have f: "mounted s" "cameraEnabled s" "isRunning s"
    by (simp_all add: sampling_inv_def)
  with assms(2,3) show ?thesis
    by (cases e)
      (auto simp: step_def handleReset_def timerTick_def settle_keeps_sampling
        split: if_splits)
qed

lemma teardown_flag:
  assumes "sampling_inv s" and "sampling s = Some i" and "e = Unmount \<or> e = Toggle acq"
  shows "sampling (step e s) = None \<and> i < length (effects (step e s))
    \<and> effects (step e s) ! i"
proof -
  from assms(1,2) have f: "i < length (effects s)" "mounted s" "cameraEnabled s" "isRunning s"
    by (simp_all add: sampling_inv_def)
  from assms(3) show ?thesis
  proof
    assume "e = Unmount"
    with f assms(2) show ?thesis
      by (simp add: step_def unmount_def Let_def split: option.splits)
  next
    assume "e = Toggle acq"
    with f assms(2) show ?thesis
      by (simp add: step_def handleToggle_def render_def Let_def split: option.splits)
  qed
qed

text \<open>
  The cancellation half of the teardown: when an event ends the live sampling effect
  instance \<open>i\<close> of a reachable state, the instance's flag is set, and whatever events
  follow, a check of that instance that completes later changes nothing.
\<close>

lemma teardown_discards_samples:
  assumes "reachable s" and "sampling s = Some i" and "sampling (step e s) \<noteq> Some i"
  shows "(e = Unmount \<or> (\<exists>acq. e = Toggle acq))
    \<and> sampling (step e s) = None
    \<and> i < length (effects (step e s)) \<and> effects (step e s) ! i
    \<and> step (Sample i eff inp) (run es (step e s)) = run es (step e s)
    \<and> checkPresence eff inp True t = Inr t"
proof -
  from assms(1) have inv: "sampling_inv s"
    by (rule reachable_sampling_inv)
  from inv assms(2,3) have ev: "e = Unmount \<or> (\<exists>acq. e = Toggle acq)"
    by (rule teardown_events)
  then obtain acq where ev': "e = Unmount \<or> e = Toggle acq"
    by blast
  have fl: "sampling (step e s) = None \<and> i < length (effects (step e s))
      \<and> effects (step e s) ! i"
    using inv assms(2) ev' by (rule teardown_flag)
  then have "step (Sample i eff inp) (run es (step e s)) = run es (step e s)"
    by (simp add: run_cancelled)
  with ev fl show ?thesis
    by (simp add: checkPresence_cancelled)
qed

subsection \<open>Auxiliary facts: rounding to a double\<close>

lemma bitlen_rat_bounds:
  assumes "0 < a"
  shows "(2::rat) powi (bitlen a - 1) \<le> of_int a" "of_int a < (2::rat) powi (bitlen a)"
proof -
  from assms have l: "1 \<le> bitlen a"
    using bitlen_eq_zero_iff [of a] bitlen_nonneg [of a] by linarith
  from bitlen_bounds [OF assms] have A: "2 ^ nat (bitlen a - 1) \<le> a" "a < 2 ^ nat (bitlen a)"
    by simp_all
  have "(2::rat) powi (bitlen a - 1) = of_int (2 ^ nat (bitlen a - 1))"
    using l by (simp add: power_int_def)
  also have "\<dots> \<le> of_int a"
    using A(1) by (simp only: of_int_le_iff)
  finally show "(2::rat) powi (bitlen a - 1) \<le> of_int a" .
  have "of_int a < (of_int (2 ^ nat (bitlen a)) :: rat)"
    using A(2) by (simp only: of_int_less_iff)
  also have "\<dots> = 2 powi (bitlen a)"
    using l by (simp add: power_int_def)
  finally show "of_int a < (2::rat) powi (bitlen a)" .
qed

lemma expo_bounds:
  assumes "0 < x"
  shows "2 powi expo x \<le> x \<and> x < 2 powi (expo x + 1)"
proof -
  obtain a b where q: "quotient_of x = (a, b)"
    by (cases "quotient_of x")
  then have b: "0 < b" and x: "x = of_int a / of_int b"
    by (simp_all add: quotient_of_denom_pos quotient_of_div)
  from assms b x have a: "0 < a"
    by (simp add: zero_less_divide_iff)
  note ra = bitlen_rat_bounds [OF a] and rb = bitlen_rat_bounds [OF b]
  have bp: "(0::rat) < of_int b"
    using b by simp
  have up: "x < 2 powi (bitlen a - bitlen b + 1)"
  proof -
    have "x * of_int b = of_int a"
      using bp by (simp add: x)
    also have "\<dots> < 2 powi (bitlen a)"
      by (rule ra(2))
    also have "\<dots> = 2 powi (bitlen a - bitlen b + 1) * 2 powi (bitlen b - 1)"
      by (simp add: power_int_add [symmetric])
    also have "\<dots> \<le> 2 powi (bitlen a - bitlen b + 1) * of_int b"
      using rb(1) by (simp add: mult_left_mono)
    finally show ?thesis
      using bp by simp
  qed
  have lo: "2 powi (bitlen a - bitlen b - 1) \<le> x"
  proof -
    have "2 powi (bitlen a - bitlen b - 1) * of_int b \<le> 2 powi (bitlen a - bitlen b - 1) * (2::rat) powi (bitlen b)"
      using rb(2) by (simp add: mult_left_mono)
    also have "\<dots> = 2 powi (bitlen a - 1)"
      by (simp add: power_int_add [symmetric])
    also have "\<dots> \<le> of_int a"
      by (rule ra(1))
    also have "\<dots> = x * of_int b"
      using bp by (simp add: x)
    finally show ?thesis
      using bp by simp
  qed
  show ?thesis
  proof (cases "2 powi (bitlen a - bitlen b) \<le> x")
    case True
    then have "expo x = bitlen a - bitlen b"
      by (simp add: expo_def q)
    with True up show ?thesis by simp
  next
    case False
    then have "expo x = bitlen a - bitlen b - 1"
      by (simp add: expo_def q)
    with False lo show ?thesis by simp
  qed
qed

lemma expo_unique:
  assumes "0 < x" and "2 powi e \<le> x" and "x < 2 powi (e + 1)"
  shows "expo x = e"
proof (rule ccontr)
  assume ne: "expo x \<noteq> e"
  from expo_bounds [OF assms(1)]
  have b: "2 powi expo x \<le> x" "x < 2 powi (expo x + 1)"
    by simp_all
  show False
  proof (cases "expo x < e")
    case True
    then have "expo x + 1 \<le> e" by simp
    then have "(2::rat) powi (expo x + 1) \<le> 2 powi e"
      by (intro power_int_increasing) simp_all
    with b(2) assms(2) show False by simp
  next
    case False
    with ne have "e + 1 \<le> expo x" by simp
    then have "(2::rat) powi (e + 1) \<le> 2 powi expo x"
      by (intro power_int_increasing) simp_all
    with b(1) assms(3) show False by simp
  qed
qed


lemma rne_near: "\<bar>x - of_int n\<bar> < 1 / 2 \<Longrightarrow> rne x = n"
proof -
  assume a: "\<bar>x - of_int n\<bar> < 1 / 2"
  show ?thesis
  proof (cases "of_int n \<le> x")
    case True
    with a have "\<lfloor>x\<rfloor> = n" by (intro floor_unique) auto
    with a True show ?thesis by (simp add: rne_def Let_def)
  next
    case False
    with a have "\<lfloor>x\<rfloor> = n - 1" by (intro floor_unique) auto
    with a False show ?thesis by (auto simp: rne_def Let_def)
  qed
qed

lemma rne_tie_up: "x = of_int n - 1 / 2 \<Longrightarrow> even n \<Longrightarrow> rne x = n"
proof -
  assume a: "x = of_int n - 1 / 2" and e: "even n"
  then have "\<lfloor>x\<rfloor> = n - 1" by (intro floor_unique) auto
  with a e show ?thesis by (simp add: rne_def Let_def)
qed

lemma rne_tie_down: "x = of_int n + 1 / 2 \<Longrightarrow> even n \<Longrightarrow> rne x = n"
proof -
  assume a: "x = of_int n + 1 / 2" and e: "even n"
  then have "\<lfloor>x\<rfloor> = n" by (intro floor_unique) auto
  with a e show ?thesis by (simp add: rne_def Let_def)
qed

lemma rd_pos:
  assumes "0 < x" and "2 powi e \<le> x" and "x < 2 powi (e + 1)" and "- 1022 \<le> e"
  shows "rd x = of_int (rne (x / 2 powi (e - 52))) * 2 powi (e - 52)"
proof -
  have "expo x = e"
    using assms(1-3) by (rule expo_unique)
  with assms(1,4) show ?thesis
    by (simp add: rd_def Let_def max_def)
qed

lemma rd_near:
  assumes "0 < x" and "2 powi e \<le> x" and "x < 2 powi (e + 1)" and "- 1022 \<le> e"
    and "\<bar>x / 2 powi (e - 52) - of_int n\<bar> < 1 / 2"
    and "y = of_int n * 2 powi (e - 52)"
  shows "rd x = y"
  using rd_pos [OF assms(1-4)] rne_near [OF assms(5)] assms(6) by simp

lemma rd_tie_up:
  assumes "0 < x" and "2 powi e \<le> x" and "x < 2 powi (e + 1)" and "- 1022 \<le> e"
    and "x / 2 powi (e - 52) = of_int n - 1 / 2" and "even n"
    and "y = of_int n * 2 powi (e - 52)"
  shows "rd x = y"
  using rd_pos [OF assms(1-4)] rne_tie_up [OF assms(5,6)] assms(7) by simp

lemma rd_tie_down:
  assumes "0 < x" and "2 powi e \<le> x" and "x < 2 powi (e + 1)" and "- 1022 \<le> e"
    and "x / 2 powi (e - 52) = of_int n + 1 / 2" and "even n"
    and "y = of_int n * 2 powi (e - 52)"
  shows "rd x = y"
  using rd_pos [OF assms(1-4)] rne_tie_down [OF assms(5,6)] assms(7) by simp

lemma rd_zero: "x = 0 \<Longrightarrow> rd x = 0"
  by (simp add: rd_def)




lemma rd_int:
  assumes "0 \<le> n" and "n < 2 ^ 53"
  shows "rd (of_int n) = of_int n"
proof (cases "n = 0")
  case True
  then show ?thesis by (simp add: rd_def)
next
  case False
  with assms have n: "0 < n" by simp
  define e where "e = bitlen n - 1"
  have l: "1 \<le> bitlen n"
    using n bitlen_eq_zero_iff [of n] bitlen_nonneg [of n] by linarith
  have u: "bitlen n \<le> 53"
    using assms(2) by (simp add: bitlen_le_iff_power)
  have e: "0 \<le> e" "e \<le> 52"
    using l u by (simp_all add: e_def)
  from bitlen_rat_bounds [OF n]
  have b: "(2::rat) powi e \<le> of_int n" "of_int n < (2::rat) powi (e + 1)"
    by (simp_all add: e_def)
  have p: "(2::rat) powi (e - 52) * 2 ^ nat (52 - e) = 1"
  proof -
    have "(2::rat) ^ nat (52 - e) = 2 powi (52 - e)"
      using e by (simp add: power_int_def)
    then have "(2::rat) powi (e - 52) * 2 ^ nat (52 - e) = 2 powi (e - 52) * 2 powi (52 - e)"
      by simp
    also have "\<dots> = 2 powi 0"
      by (simp add: power_int_add [symmetric])
    finally show ?thesis by simp
  qed
  have q: "(of_int n :: rat) / 2 powi (e - 52) = of_int (n * 2 ^ nat (52 - e))"
  proof -
    have "(of_int n :: rat) = of_int n * (2 powi (e - 52) * 2 ^ nat (52 - e))"
      by (simp only: p mult_1_right)
    then have "(of_int n :: rat) / 2 powi (e - 52) = of_int n * 2 ^ nat (52 - e)"
      by (simp add: field_simps)
    then show ?thesis by simp
  qed
  show ?thesis
  proof (rule rd_near [where e = e and n = "n * 2 ^ nat (52 - e)"])
    show "(0::rat) < of_int n" using n by simp
    show "(2::rat) powi e \<le> of_int n" by (rule b)
    show "(of_int n :: rat) < 2 powi (e + 1)" by (rule b)
    show "- 1022 \<le> e" using e by simp
    show "\<bar>(of_int n :: rat) / 2 powi (e - 52) - of_int (n * 2 ^ nat (52 - e))\<bar> < 1 / 2"
      unfolding q by simp
    show "(of_int n :: rat) = of_int (n * 2 ^ nat (52 - e)) * 2 powi (e - 52)"
      using p by (simp add: mult.assoc mult.commute)
  qed
qed

lemma rd_numeral [simp]: "numeral k < (2::int) ^ 53 \<Longrightarrow> rd (numeral k) = numeral k"
  using rd_int [of "numeral k"] by simp

lemma rd_0 [simp]: "rd 0 = 0"
  by (simp add: rd_def)

lemma rd_1 [simp]: "rd 1 = 1"
  using rd_int [of 1] by simp

subsection \<open>Auxiliary facts: the frame analysis\<close>










subsection \<open>Auxiliary facts: the concrete inputs\<close>

lemma camera_on_reachable: "reachable camera_on"
  unfolding camera_on_def by (rule reachable_step [OF reachable_init])

lemma camera_on_fields:
  "mounted camera_on" "isRunning camera_on" "cameraEnabled camera_on"
  "isUserPresent camera_on = None" "streamRef camera_on = Some 0"
  "media camera_on = [[True, True]]" "sampling camera_on = Some 0"
  "effects camera_on = [False]" "videoRef camera_on = Some (Some 0)"
  "seconds camera_on = 0"
  unfolding camera_on_def
  by (simp_all add: step_def init_def handleEnableCamera_def render_def numeral_2_eq_2)

lemma overlap_reachable: "reachable overlap_state" "reachable late_state"
  unfolding overlap_state_def late_state_def
  by (rule reachable_run [OF reachable_init])+

lemma overlap_fields:
  "mounted overlap_state" "isRunning overlap_state" "cameraEnabled overlap_state"
  "streamRef overlap_state = Some 1" "media overlap_state = [[True], [True]]"
  "sampling overlap_state = Some 0" "effects overlap_state = [False]"
  "videoRef overlap_state = Some (Some 0)" "pending overlap_state = []"
  unfolding overlap_state_def
  by (simp_all add: step_def settle_def init_def handleEnableCamera_def render_def Let_def)

lemma late_fields:
  "\<not> mounted late_state" "streamRef late_state = Some 1"
  "media late_state = [[False], [True]]" "sampling late_state = None"
  "effects late_state = [True]"
  unfolding late_state_def
  by (simp_all add: step_def settle_def init_def handleEnableCamera_def render_def unmount_def
      stopTracks_def Let_def)

lemma frames_covered: "\<not> cameraCovered checker_frame" "cameraCovered black_frame"
  by (simp_all add: cameraCovered_def checker_frame_def black_frame_def lum_of_def Let_def)











lemma ready_sample_fields [simp]:
  "video (ready_sample n data)" "detect (ready_sample n data) = Inr n"
  "readyState (ready_sample n data) = 4" "videoWidth (ready_sample n data) = 640"
  "videoHeight (ready_sample n data) = 480" "imageData (ready_sample n data) = Inr data"
  by (simp_all add: ready_sample_def)

section \<open>The claims\<close>

subsection \<open>The timer gate\<close>

text \<open>
  Claim C1. In every state, \<open>isTimerActive\<close> (the spec's effectiveActive) equals
  \<open>isRunning\<close> and (camera disabled or the latest sample is Present). So with the camera
  disabled it equals \<open>isRunning\<close>, and with the camera enabled and the latest sample Absent
  or still Unknown it is false whatever \<open>isRunning\<close> is.
\<close>

theorem C1_effective_active:
  "isTimerActive s = (isRunning s \<and> (\<not> cameraEnabled s \<or> latestSample s = Present))
   \<and> (\<not> cameraEnabled s \<longrightarrow> isTimerActive s = isRunning s)
   \<and> (cameraEnabled s \<and> (latestSample s = Absent \<or> latestSample s = Unknown)
        \<longrightarrow> \<not> isTimerActive s)"
  by (auto simp: isTimerActive_def isAutoPaused_def latestSample_def
      split: option.splits bool.splits)

theorem C1_effective_active_witness:
  "isTimerActive init = isRunning init \<and> \<not> cameraEnabled init
   \<and> cameraEnabled (init\<lparr>cameraEnabled := True, isUserPresent := Some False\<rparr>)
   \<and> latestSample (init\<lparr>cameraEnabled := True, isUserPresent := Some False\<rparr>) = Absent
   \<and> isRunning (init\<lparr>cameraEnabled := True, isUserPresent := Some False\<rparr>)
   \<and> \<not> isTimerActive (init\<lparr>cameraEnabled := True, isUserPresent := Some False\<rparr>)"
  using C1_effective_active [of init]
    C1_effective_active [of "init\<lparr>cameraEnabled := True, isUserPresent := Some False\<rparr>"]
  by (simp add: init_def latestSample_def)

subsection \<open>The decision table\<close>

text \<open>
  Claim C2. A presence check that completes (video element and canvas context present,
  the detector, if there is one, returned \<open>n\<close> faces, the frame is decodable, its pixels
  \<open>data\<close> could be read, and the effect is not cancelled) stores the classification \<open>p\<close>
  of the ordered table: Absent if the camera is covered; otherwise, with a face detector,
  Present exactly when \<open>n > 0\<close>; otherwise, without a detector, Present.
\<close>

theorem C2_decision_table:
  assumes "video inp" and "ctx eff" and "detector eff \<Longrightarrow> detect inp = Inr n"
    and "2 \<le> readyState inp" and "0 < videoWidth inp" and "0 < videoHeight inp"
    and "imageData inp = Inr data"
  shows "\<exists>p. checkPresence eff inp False s = Inr (s\<lparr>isUserPresent := Some p\<rparr>)
      \<and> latestSample (s\<lparr>isUserPresent := Some p\<rparr>) = (if p then Present else Absent)
      \<and> (cameraCovered data \<longrightarrow> \<not> p)
      \<and> (\<not> cameraCovered data \<and> detector eff \<longrightarrow> p = (0 < n))
      \<and> (\<not> cameraCovered data \<and> \<not> detector eff \<longrightarrow> p)"
proof (cases "detector eff")
  case True
  with assms have "checkPresence eff inp False s
      = Inr (s\<lparr>isUserPresent := Some (present_of (cameraCovered data) True n)\<rparr>)"
    by (simp add: checkPresence_def try_block_def)
  then show ?thesis
    using True by (auto simp: present_of_def latestSample_def)
next
  case False
  with assms have "checkPresence eff inp False s
      = Inr (s\<lparr>isUserPresent := Some (present_of (cameraCovered data) False 0)\<rparr>)"
    by (simp add: checkPresence_def try_block_def)
  then show ?thesis
    using False by (auto simp: present_of_def latestSample_def)
qed

theorem C2_decision_table_witness:
  "checkPresence sampler_plain (ready_sample 0 checker_frame) False camera_on
     = Inr (camera_on\<lparr>isUserPresent := Some True\<rparr>)
   \<and> checkPresence sampler0 (ready_sample 0 checker_frame) False camera_on
     = Inr (camera_on\<lparr>isUserPresent := Some False\<rparr>)
   \<and> checkPresence sampler0 (ready_sample 1 checker_frame) False camera_on
     = Inr (camera_on\<lparr>isUserPresent := Some True\<rparr>)
   \<and> checkPresence sampler0 (ready_sample 1 black_frame) False camera_on
     = Inr (camera_on\<lparr>isUserPresent := Some False\<rparr>)"
proof -
  have a: "checkPresence sampler_plain (ready_sample 0 checker_frame) False camera_on
     = Inr (camera_on\<lparr>isUserPresent := Some True\<rparr>)"
    using C2_decision_table [of "ready_sample 0 checker_frame" sampler_plain 0
        checker_frame camera_on] frames_covered
    by (auto simp: sampler_plain_def)
  have b: "checkPresence sampler0 (ready_sample 0 checker_frame) False camera_on
     = Inr (camera_on\<lparr>isUserPresent := Some False\<rparr>)"
    using C2_decision_table [of "ready_sample 0 checker_frame" sampler0 0
        checker_frame camera_on] frames_covered
    by (auto simp: sampler0_def)
  have c: "checkPresence sampler0 (ready_sample 1 checker_frame) False camera_on
     = Inr (camera_on\<lparr>isUserPresent := Some True\<rparr>)"
    using C2_decision_table [of "ready_sample 1 checker_frame" sampler0 1
        checker_frame camera_on] frames_covered
    by (auto simp: sampler0_def)
  have d: "checkPresence sampler0 (ready_sample 1 black_frame) False camera_on
     = Inr (camera_on\<lparr>isUserPresent := Some False\<rparr>)"
    using C2_decision_table [of "ready_sample 1 black_frame" sampler0 1
        black_frame camera_on] frames_covered
    by (auto simp: sampler0_def)
  from a b c d show ?thesis by simp
qed

subsection \<open>The covered-camera test\<close>




subsection \<open>The status label\<close>

text \<open>
  Claim C4, as the code has it. The label is a function of the state: it is "Studying"
  exactly when \<open>isTimerActive\<close> holds; it is the long "Not studying" label (user not detected
  or camera covered) exactly when the camera is enabled and the latest sample is not
  Present, whether or not a run is requested; and it is the plain "Not studying" exactly
  when no run is requested and the camera is disabled or the latest sample is Present.
\<close>

theorem C4_status_label:
  "(studyStatusLabel s = label_studying \<longleftrightarrow> isTimerActive s)
   \<and> (studyStatusLabel s = label_auto_paused
        \<longleftrightarrow> cameraEnabled s \<and> latestSample s \<noteq> Present)
   \<and> (studyStatusLabel s = label_not_studying
        \<longleftrightarrow> \<not> isRunning s \<and> (\<not> cameraEnabled s \<or> latestSample s = Present))"
  using labels_distinct
  by (auto simp: studyStatusLabel_def isTimerActive_def isAutoPaused_def latestSample_def
      split: option.splits bool.splits)

theorem C4_status_label_witness:
  "studyStatusLabel init = label_studying \<and> isTimerActive init
   \<and> studyStatusLabel (init\<lparr>isRunning := False\<rparr>) = label_not_studying
   \<and> \<not> isRunning (init\<lparr>isRunning := False\<rparr>)
   \<and> \<not> cameraEnabled (init\<lparr>isRunning := False\<rparr>)
   \<and> studyStatusLabel (init\<lparr>isRunning := False, cameraEnabled := True\<rparr>) = label_auto_paused
   \<and> cameraEnabled (init\<lparr>isRunning := False, cameraEnabled := True\<rparr>)
   \<and> latestSample (init\<lparr>isRunning := False, cameraEnabled := True\<rparr>) = Unknown"
  using C4_status_label [of init] C4_status_label [of "init\<lparr>isRunning := False\<rparr>"]
    C4_status_label [of "init\<lparr>isRunning := False, cameraEnabled := True\<rparr>"]
  by (simp add: init_def latestSample_def isTimerActive_def isAutoPaused_def)

text \<open>
  The claim as the spec words it fails: pressing Stop and then "Enable camera" (granted,
  one track) leads to a state with the camera enabled and no run requested, and the label
  there is the long one, not the plain "Not studying".
\<close>

theorem C4_status_label_counterexample:
  "reachable (run [Toggle Rejected, EnableCamera (Granted 1)] init)
   \<and> cameraEnabled (run [Toggle Rejected, EnableCamera (Granted 1)] init)
   \<and> \<not> isRunning (run [Toggle Rejected, EnableCamera (Granted 1)] init)
   \<and> studyStatusLabel (run [Toggle Rejected, EnableCamera (Granted 1)] init)
       = label_auto_paused
   \<and> studyStatusLabel (run [Toggle Rejected, EnableCamera (Granted 1)] init)
       \<noteq> label_not_studying"
proof -
  have r: "reachable (run [Toggle Rejected, EnableCamera (Granted 1)] init)"
    by (rule reachable_run) (rule reachable_init)
  have f: "cameraEnabled (run [Toggle Rejected, EnableCamera (Granted 1)] init)"
    "\<not> isRunning (run [Toggle Rejected, EnableCamera (Granted 1)] init)"
    "isUserPresent (run [Toggle Rejected, EnableCamera (Granted 1)] init) = None"
    by (simp_all add: step_def init_def handleToggle_def)
  from f have "studyStatusLabel (run [Toggle Rejected, EnableCamera (Granted 1)] init)
      = label_auto_paused"
    by (simp add: studyStatusLabel_def isTimerActive_def isAutoPaused_def)
  with r f labels_distinct show ?thesis by simp
qed

subsection \<open>A frame that is not yet decodable\<close>

text \<open>
  Claim C5 says that a check on a frame that is not yet decodable leaves the stored
  classification as it was, also when a face detector is called on that frame. The code
  calls the detector (line 104) before it looks at the frame's readiness (line 114), so a
  detector that rejects the frame lands in the \<open>catch\<close>: on the first check after the
  camera came on, with the video element still without data, the classification goes from
  Unknown to Absent.
\<close>

theorem C5_not_ready_frame:
  "reachable camera_on \<and> sampling camera_on = Some 0 \<and> latestSample camera_on = Unknown
   \<and> readyState not_ready_sample < 2
   \<and> latestSample (step (Sample 0 sampler0 not_ready_sample) camera_on) = Absent"
proof -
  have "checkPresence sampler0 not_ready_sample False camera_on
      = Inr (camera_on\<lparr>isUserPresent := Some False\<rparr>)"
    by (rule not_ready_detector_failure) (simp_all add: sampler0_def not_ready_sample_def)
  then have "step (Sample 0 sampler0 not_ready_sample) camera_on
      = camera_on\<lparr>isUserPresent := Some False\<rparr>"
    by (simp add: step_def apply_sample_def camera_on_fields)
  then show ?thesis
    by (simp add: camera_on_reachable camera_on_fields latestSample_def not_ready_sample_def)
qed

subsection \<open>The elapsed-seconds counter\<close>

text \<open>
  Claim C6. No event other than Reset makes \<open>seconds\<close> smaller, neither in one step nor
  over a run of events; a timer tick while \<open>isTimerActive\<close> holds adds exactly 1; and
  \<open>handleReset\<close> sets \<open>seconds\<close> to 0 from any state and changes no other field (run
  state, camera state, classification, error string).
\<close>

theorem C6_elapsed_seconds:
  "(e \<noteq> Reset \<longrightarrow> seconds s \<le> seconds (step e s))
   \<and> (Reset \<notin> set es \<longrightarrow> seconds s \<le> seconds (run es s))
   \<and> (isTimerActive s \<longrightarrow> seconds (timerTick s) = seconds s + 1)
   \<and> (mounted s \<and> isTimerActive s \<longrightarrow> seconds (step TimerTick s) = seconds s + 1)
   \<and> seconds (handleReset s) = 0
   \<and> isRunning (handleReset s) = isRunning s
   \<and> cameraEnabled (handleReset s) = cameraEnabled s
   \<and> isUserPresent (handleReset s) = isUserPresent s
   \<and> cameraError (handleReset s) = cameraError s
   \<and> handleReset s = s\<lparr>seconds := 0\<rparr>
   \<and> (mounted s \<longrightarrow> step Reset s = s\<lparr>seconds := 0\<rparr>)"
proof -
  have a: "e \<noteq> Reset \<longrightarrow> seconds s \<le> seconds (step e s)"
    using step_seconds [of e s] by blast
  have b: "Reset \<notin> set es \<longrightarrow> seconds s \<le> seconds (run es s)"
    using run_seconds [of es s] by blast
  have c: "isTimerActive s \<longrightarrow> seconds (timerTick s) = seconds s + 1"
    by (simp add: timerTick_seconds)
  have d: "mounted s \<and> isTimerActive s \<longrightarrow> seconds (step TimerTick s) = seconds s + 1"
    by (simp add: step_def timerTick_seconds)
  have f: "handleReset s = s\<lparr>seconds := 0\<rparr>"
    by (simp add: handleReset_def)
  have g: "mounted s \<longrightarrow> step Reset s = s\<lparr>seconds := 0\<rparr>"
    by (simp add: step_def handleReset_def)
  from a b c d g show ?thesis
    unfolding f by simp
qed

theorem C6_elapsed_seconds_witness:
  "TimerTick \<noteq> Reset \<and> seconds init \<le> seconds (step TimerTick init)
   \<and> Reset \<notin> set [TimerTick, Toggle Rejected, TimerTick]
   \<and> seconds init \<le> seconds (run [TimerTick, Toggle Rejected, TimerTick] init)
   \<and> mounted init \<and> isTimerActive init
   \<and> seconds (timerTick init) = seconds init + 1
   \<and> seconds (step TimerTick init) = seconds init + 1
   \<and> seconds (handleReset (step TimerTick init)) = 0
   \<and> step Reset init = init\<lparr>seconds := 0\<rparr>"
  using C6_elapsed_seconds [of TimerTick init "[TimerTick, Toggle Rejected, TimerTick]"]
    C6_elapsed_seconds [of Reset "step TimerTick init" "[]"]
  by (simp add: init_def isTimerActive_def isAutoPaused_def)

subsection \<open>Stopping\<close>

text \<open>
  Claim C7. From any state with \<open>isRunning\<close>, \<open>handleToggle\<close> takes the stop branch: it
  sets \<open>isRunning\<close> to false, stops every track of the stream that \<open>streamRef\<close> held and
  forgets the handle, leaves no stream attached to the video element, sets
  \<open>cameraEnabled\<close> to false and puts the presence sample back to Unknown (null). The stop
  branch is idempotent: run again on its own result, where no stream exists any more, it
  changes nothing.
\<close>

theorem C7_toggle_stop:
  assumes "isRunning s"
  shows "\<not> isRunning (handleToggle acq s)
    \<and> \<not> cameraEnabled (handleToggle acq s)
    \<and> isUserPresent (handleToggle acq s) = None
    \<and> latestSample (handleToggle acq s) = Unknown
    \<and> streamRef (handleToggle acq s) = None
    \<and> (\<forall>h. streamRef s = Some h \<and> h < length (media s)
          \<longrightarrow> stopped (media (handleToggle acq s) ! h)
              \<and> length (media (handleToggle acq s) ! h) = length (media s ! h))
    \<and> (videoRef (handleToggle acq s) = None \<or> videoRef (handleToggle acq s) = Some None)
    \<and> seconds (handleToggle acq s) = seconds s
    \<and> handleToggle acq s = handleToggle_stop s
    \<and> handleToggle_stop (handleToggle_stop s) = handleToggle_stop s"
proof -
  have eq: "handleToggle acq s = handleToggle_stop s"
    using assms by (simp add: handleToggle_def)
  have idem: "handleToggle_stop (handleToggle_stop s) = handleToggle_stop s"
    by (simp add: handleToggle_stop_def Let_def split: option.splits)
  have tracks: "\<forall>h. streamRef s = Some h \<and> h < length (media s)
          \<longrightarrow> stopped (media (handleToggle_stop s) ! h)
              \<and> length (media (handleToggle_stop s) ! h) = length (media s ! h)"
    by (simp add: nth_stopTracks)
  have vid: "videoRef (handleToggle_stop s) = None
      \<or> videoRef (handleToggle_stop s) = Some None"
    by (simp split: option.splits)
  from idem tracks vid show ?thesis
    unfolding eq by (simp add: latestSample_def)
qed

theorem C7_toggle_stop_witness:
  "isRunning camera_on \<and> streamRef camera_on = Some 0 \<and> media camera_on = [[True, True]]
   \<and> \<not> isRunning (handleToggle Rejected camera_on)
   \<and> \<not> cameraEnabled (handleToggle Rejected camera_on)
   \<and> isUserPresent (handleToggle Rejected camera_on) = None
   \<and> streamRef (handleToggle Rejected camera_on) = None
   \<and> media (handleToggle Rejected camera_on) = [[False, False]]
   \<and> stopped (media (handleToggle Rejected camera_on) ! 0)
   \<and> videoRef (handleToggle Rejected camera_on) = Some None
   \<and> handleToggle_stop (handleToggle Rejected camera_on) = handleToggle Rejected camera_on"
proof -
  have m: "media (handleToggle Rejected camera_on) = [[False, False]]"
    "videoRef (handleToggle Rejected camera_on) = Some None"
    by (simp_all add: handleToggle_def camera_on_fields stopTracks_def)
  from C7_toggle_stop [OF camera_on_fields(2), of Rejected] m camera_on_fields
  show ?thesis by simp
qed

subsection \<open>A failed sample\<close>

text \<open>
  Claim C8. On a live sampling loop, when the \<open>try\<close> block of a presence check throws
  (the face detector rejects, or the frame cannot be drawn or read), the check stores
  Absent and the loop goes on with the next tick from that state. No exception ever leaves
  \<open>checkPresence\<close>, so the loop runs through every list of ticks, and a completed check
  leaves the effect instance and its flag as they were.
\<close>

theorem C8_failed_sample:
  "(video inp \<and> ctx eff \<and> try_block eff inp False = Inl e \<longrightarrow>
      checkPresence eff inp False s = Inr (s\<lparr>isUserPresent := Some False\<rparr>)
      \<and> latestSample (s\<lparr>isUserPresent := Some False\<rparr>) = Absent
      \<and> sampling_loop eff (inp # ts) s
          = sampling_loop eff ts (s\<lparr>isUserPresent := Some False\<rparr>))
   \<and> (detector eff \<and> detect inp = Inl e \<longrightarrow> try_block eff inp False = Inl e)
   \<and> ((detector eff \<longrightarrow> detect inp = Inr n) \<and> 2 \<le> readyState inp \<and> 0 < videoWidth inp
        \<and> 0 < videoHeight inp \<and> imageData inp = Inl e \<longrightarrow> try_block eff inp False = Inl e)
   \<and> (\<forall>x. checkPresence eff inp c s \<noteq> Inl x)
   \<and> (\<exists>s'. sampling_loop eff ts s = Inr s')
   \<and> sampling (apply_sample i eff inp s) = sampling s
   \<and> effects (apply_sample i eff inp s) = effects s"
proof -
  have a: "video inp \<and> ctx eff \<and> try_block eff inp False = Inl e \<longrightarrow>
      checkPresence eff inp False s = Inr (s\<lparr>isUserPresent := Some False\<rparr>)
      \<and> latestSample (s\<lparr>isUserPresent := Some False\<rparr>) = Absent
      \<and> sampling_loop eff (inp # ts) s
          = sampling_loop eff ts (s\<lparr>isUserPresent := Some False\<rparr>)"
    by (simp add: checkPresence_catch latestSample_def)
  have b: "detector eff \<and> detect inp = Inl e \<longrightarrow> try_block eff inp False = Inl e"
    using try_block_throws(1) by blast
  have c: "(detector eff \<longrightarrow> detect inp = Inr n) \<and> 2 \<le> readyState inp
        \<and> 0 < videoWidth inp \<and> 0 < videoHeight inp \<and> imageData inp = Inl e
      \<longrightarrow> try_block eff inp False = Inl e"
    using try_block_throws(2) by blast
  have d: "\<forall>x. checkPresence eff inp c s \<noteq> Inl x"
    by (simp add: checkPresence_total)
  have f: "\<exists>s'. sampling_loop eff ts s = Inr s'"
    using sampling_loop_total [of eff ts s] by (cases "sampling_loop eff ts s") auto
  from a b c d f show ?thesis
    by simp
qed

theorem C8_failed_sample_witness:
  "video broken_sample \<and> ctx sampler0
   \<and> try_block sampler0 broken_sample False = Inl FrameError
   \<and> checkPresence sampler0 broken_sample False camera_on
       = Inr (camera_on\<lparr>isUserPresent := Some False\<rparr>)
   \<and> sampling_loop sampler0 [broken_sample, ready_sample 1 checker_frame] camera_on
       = Inr (camera_on\<lparr>isUserPresent := Some True\<rparr>)
   \<and> sampling (apply_sample 0 sampler0 broken_sample camera_on) = Some 0"
proof -
  have t: "video broken_sample" "ctx sampler0"
    "try_block sampler0 broken_sample False = Inl FrameError"
    by (simp_all add: broken_sample_def sampler0_def try_block_def)
  note w = C8_failed_sample [where inp = broken_sample and eff = sampler0 and e = FrameError
      and s = camera_on and ts = "[ready_sample 1 checker_frame]" and i = 0]
  have n: "checkPresence sampler0 (ready_sample 1 checker_frame) False
      (camera_on\<lparr>isUserPresent := Some False\<rparr>) = Inr (camera_on\<lparr>isUserPresent := Some True\<rparr>)"
    using frames_covered
    by (simp add: checkPresence_def try_block_def sampler0_def present_of_def)
  from w t n show ?thesis
    by (simp add: camera_on_fields)
qed

subsection \<open>Teardown\<close>

text \<open>
  Claim C9 says that after the sampling loop is torn down no result of a check still in
  flight is applied, and that the teardown leaves no hardware track active. The first half
  holds (\<open>teardown_discards_samples\<close>), and both teardown paths stop the stream that
  \<open>streamRef\<close> holds (\<open>teardown_stops_held\<close>). The second half fails when two camera
  requests overlap: the "Enable camera" button stays until the first answer arrives, a
  second click makes a second request, and the second grant overwrites the handle of the
  first stream (line 49), which nothing stops any more. In \<open>overlap_state\<close> the sampling
  loop is live and two streams are live; Stop, and likewise the unmount, tears the loop
  down and stops the second stream only. In \<open>late_state\<close> the second grant arrives after
  the unmount and its stream stays live.
\<close>

theorem C9_overlapping_requests:
  "reachable overlap_state \<and> sampling overlap_state = Some 0
   \<and> media overlap_state = [[True], [True]] \<and> streamRef overlap_state = Some 1
   \<and> sampling (step (Toggle Rejected) overlap_state) = None
   \<and> media (step (Toggle Rejected) overlap_state) = [[True], [False]]
   \<and> \<not> noLiveTrack (media (step (Toggle Rejected) overlap_state))
   \<and> sampling (step Unmount overlap_state) = None
   \<and> media (step Unmount overlap_state) = [[True], [False]]
   \<and> \<not> noLiveTrack (media (step Unmount overlap_state))
   \<and> reachable late_state \<and> \<not> mounted late_state
   \<and> media late_state = [[False], [True]] \<and> \<not> noLiveTrack (media late_state)"
proof -
  have stop: "sampling (step (Toggle Rejected) overlap_state) = None"
    "media (step (Toggle Rejected) overlap_state) = [[True], [False]]"
    by (simp_all add: step_def handleToggle_def render_sampling overlap_fields stopTracks_def)
  have un: "sampling (step Unmount overlap_state) = None"
    "media (step Unmount overlap_state) = [[True], [False]]"
    by (simp_all add: step_def unmount_def overlap_fields stopTracks_def)
  have live: "\<not> noLiveTrack [[True], [False]]" "\<not> noLiveTrack [[False], [True]]"
    by (simp_all add: noLiveTrack_def stopped_def)
  from overlap_reachable overlap_fields late_fields stop un live show ?thesis
    by simp
qed

subsection \<open>The initial state\<close>

text \<open>
  Claim C10. On initialisation \<open>isRunning\<close> is true, \<open>cameraEnabled\<close> is false,
  \<open>seconds\<close> is 0 and the presence sample is Unknown (null). So \<open>isTimerActive\<close> holds at
  once and the timer ticks from mount, before Start is pressed or the camera is enabled:
  after \<open>n\<close> ticks from the initial state \<open>seconds\<close> is \<open>n\<close>.
\<close>

theorem C10_initial_state:
  "isRunning init \<and> \<not> cameraEnabled init \<and> seconds init = 0 \<and> isUserPresent init = None
   \<and> latestSample init = Unknown \<and> isTimerActive init
   \<and> seconds (step TimerTick init) = 1
   \<and> seconds (run (replicate n TimerTick) init) = n"
proof -
  have "mounted init \<and> isTimerActive init"
    by (simp add: init_def isTimerActive_def isAutoPaused_def)
  then have "seconds (run (replicate n TimerTick) init) = seconds init + n"
    by (simp add: run_ticks)
  then show ?thesis
    by (simp add: init_def isTimerActive_def isAutoPaused_def latestSample_def step_def
        timerTick_def)
qed

theorem C10_initial_state_witness:
  "isTimerActive init \<and> seconds (run (replicate 3 TimerTick) init) = 3"
  using C10_initial_state [of 3] by simp

end
